theory Spec2Isabelle
  imports Main
begin

section \<open>Bulk data export: the model of main.py\<close>

text \<open>
  The service reads one table, \<open>large_table\<close>, and streams it as newline-delimited JSON
  while writing chunks to disk. The model is a shallow embedding of \<open>main.py\<close>:

  \<^item> a row (\<open>dict(row)\<close>) is a value of an arbitrary type \<open>'r\<close>: the code never looks
    inside a row, it only appends it to a buffer and hands the buffer to \<open>json.dumps\<close>;
  \<^item> the table is the list of its rows in the order the store returns them;
  \<^item> a value passed to \<open>yield json.dumps(v) + "\n"\<close> is kept as the JSON value \<open>v\<close>
    itself (an array of rows, or an object of string fields); one element of the
    output list is one newline-terminated line of the response body;
  \<^item> the filesystem is a set of directories and a map from paths to file contents; the
    content written by \<open>json.dump(chunk, file, indent=4)\<close> is kept as the dumped list;
  \<^item> the statements sent to the store are logged, in order, in the environment;
  \<^item> a generator is modelled by consuming it to its end: the lines it yields, in order,
    and the environment it leaves behind.

  Store and filesystem operations are taken to succeed, and the messages written with
  \<open>print\<close> are left out: no property below is about them.
\<close>

subsection \<open>Data\<close>

datatype 'r line = Array "'r list" | Object "(string \<times> string) list"

datatype query =
    Select_limit nat
  | Select_limit_offset int int
  | Select_count

record 'r env =
  dirs :: "string set"
  files :: "string \<rightharpoonup> 'r list"
  executed :: "query list"

datatype http_exception = HTTPException (status_code: int) (detail: string)

fun records_of :: "'r line \<Rightarrow> 'r list" where
  "records_of (Array rs) = rs"
| "records_of (Object kvs) = []"

subsection \<open>The store\<close>

text \<open>
  \<open>SELECT * FROM large_table LIMIT n\<close> and \<open>... LIMIT n OFFSET k\<close> as SQLite evaluates
  them (the engine is opened on \<open>sqlite:///database/bulk.db\<close>): a negative OFFSET counts
  as zero, a negative LIMIT is no limit. \<open>SELECT COUNT(*)\<close> has one row holding the
  number of rows of the table.
\<close>

definition select_limit :: "nat \<Rightarrow> 'r list \<Rightarrow> 'r list" where
  "select_limit n t = take n t"

definition select_limit_offset :: "int \<Rightarrow> int \<Rightarrow> 'r list \<Rightarrow> 'r list" where
  "select_limit_offset lim off t =
     (let rest = drop (nat off) t in if lim < 0 then rest else take (nat lim) rest)"

definition select_count :: "'r list \<Rightarrow> int" where
  "select_count t = int (length t)"

definition execute :: "query \<Rightarrow> 'r env \<Rightarrow> 'r env" where
  "execute q e = e\<lparr>executed := executed e @ [q]\<rparr>"

subsection \<open>Writing a chunk to disk\<close>

text \<open>\<open>str(n)\<close> for a chunk number: decimal digits, no leading zero.\<close>

definition digit :: "nat \<Rightarrow> char" where
  "digit d = ''0123456789'' ! d"

fun str :: "nat \<Rightarrow> string" where
  "str n = (if n < 10 then [digit n] else str (n div 10) @ [digit (n mod 10)])"

declare str.simps [simp del]

text \<open>\<open>os.path.join(a, b)\<close> on POSIX.\<close>

definition path_join :: "string \<Rightarrow> string \<Rightarrow> string" where
  "path_join a b =
     (if b \<noteq> [] \<and> hd b = CHR ''/'' then b
      else if a = [] \<or> last a = CHR ''/'' then a @ b
      else a @ ''/'' @ b)"

definition part_name :: "nat \<Rightarrow> string" where
  "part_name chunk_number = ''part_'' @ str chunk_number @ ''.json''"

definition generate_file_json :: "'r list \<Rightarrow> nat \<Rightarrow> string \<Rightarrow> 'r env \<Rightarrow> 'r env" where
  "generate_file_json chunk chunk_number output_folder e =
     (let e1 = (if output_folder \<notin> dirs e
                then e\<lparr>dirs := insert output_folder (dirs e)\<rparr> else e);
          file_name = path_join output_folder (part_name chunk_number)
      in e1\<lparr>files := (files e1)(file_name \<mapsto> chunk)\<rparr>)"

subsection \<open>get_large_data_chunks and /bulk-data\<close>

text \<open>
  The \<open>for row in result.mappings()\<close> loop. Its state is the buffer \<open>chunk\<close>, the
  counter \<open>chunk_number\<close>, the lines yielded so far and the environment; it returns
  that state when the rows are exhausted. A full buffer is yielded, then written to
  \<open>chunks\<close> under the current number, then the counter goes up and the buffer is
  replaced by a new empty list.
\<close>

fun for_rows ::
  "int \<Rightarrow> 'r list \<Rightarrow> 'r list \<Rightarrow> nat \<Rightarrow> 'r line list \<Rightarrow> 'r env
     \<Rightarrow> 'r list \<times> nat \<times> 'r line list \<times> 'r env" where
  "for_rows chunk_size [] chunk chunk_number out e = (chunk, chunk_number, out, e)"
| "for_rows chunk_size (row # rest) chunk chunk_number out e =
     (let chunk1 = chunk @ [row] in
      if int (length chunk1) \<ge> chunk_size
      then for_rows chunk_size rest [] (chunk_number + 1) (out @ [Array chunk1])
             (generate_file_json chunk1 chunk_number ''chunks'' e)
      else for_rows chunk_size rest chunk1 chunk_number out e)"

definition get_large_data_chunks :: "int \<Rightarrow> 'r list \<Rightarrow> 'r env \<Rightarrow> 'r line list \<times> 'r env" where
  "get_large_data_chunks chunk_size t e =
     (let result = select_limit 10000 t;
          e0 = execute (Select_limit 10000) e;
          (chunk, chunk_number, out, e1) = for_rows chunk_size result [] 1 [] e0
      in if chunk \<noteq> [] then (out @ [Array chunk], e1) else (out, e1))"

text \<open>The handler of \<open>/bulk-data\<close> calls the generator with its default chunk size.\<close>

definition get_bulk_data :: "'r list \<Rightarrow> 'r env \<Rightarrow> 'r line list \<times> 'r env" where
  "get_bulk_data t e = get_large_data_chunks 1000 t e"

subsection \<open>get_data_paginated and /bulk-data-paginated\<close>

definition no_more_data :: "'r line" where
  "no_more_data = Object [(''message'', ''No more data available'')]"

definition get_data_paginated :: "int \<Rightarrow> int \<Rightarrow> 'r list \<Rightarrow> 'r env \<Rightarrow> 'r line list \<times> 'r env" where
  "get_data_paginated page chunk_size t e =
     (let offset = (page - 1) * chunk_size;
          e0 = execute (Select_limit_offset chunk_size offset) e;
          chunk = select_limit_offset chunk_size offset t;
          chunk_number = 1
      in if chunk \<noteq> []
         then ([Array chunk], generate_file_json chunk chunk_number ''chunks_paginated'' e0)
         else ([no_more_data], e0))"

text \<open>
  The second handler is also called \<open>get_bulk_data\<close> in the source; it is registered
  on its own route, so both handlers stay reachable.
\<close>

definition get_bulk_data_paginated ::
  "int \<Rightarrow> int \<Rightarrow> 'r list \<Rightarrow> 'r env \<Rightarrow> (http_exception + 'r line list) \<times> 'r env" where
  "get_bulk_data_paginated page chunk_size t e =
     (if page < 1 \<or> chunk_size < 1
      then (Inl (HTTPException 400 ''Page and chunk_size must be greater than 0''), e)
      else (let (out, e1) = get_data_paginated page chunk_size t e in (Inr out, e1)))"

subsection \<open>/count-records\<close>

definition count_records :: "'r list \<Rightarrow> 'r env \<Rightarrow> (string \<times> int) list \<times> 'r env" where
  "count_records t e =
     (let total_records = select_count t
      in ([(''total_records'', total_records)], execute Select_count e))"

subsection \<open>Auxiliary notions for the proofs\<close>

text \<open>
  \<open>chop n xs\<close> cuts a list into consecutive pieces of \<open>n\<close> elements, the last one
  possibly shorter. It is the yardstick the loop of \<open>get_large_data_chunks\<close> is
  measured against; no definition of the program refers to it.
\<close>

fun chop :: "nat \<Rightarrow> 'a list \<Rightarrow> 'a list list" where
  "chop n xs = (if n = 0 \<or> xs = [] then [] else take n xs # chop n (drop n xs))"

declare chop.simps [simp del]

text \<open>
  The size at which the loop flushes its buffer: the test \<open>len(chunk) >= chunk_size\<close>
  runs after an append, so a \<open>chunk_size\<close> below one behaves as one.
\<close>

definition width :: "int \<Rightarrow> nat" where
  "width chunk_size = max 1 (nat chunk_size)"

subsection \<open>Example data\<close>

text \<open>A fresh working directory and a store that has run no statement yet.\<close>

definition empty_env :: "'r env" where
  "empty_env = \<lparr>dirs = {}, files = Map.empty, executed = []\<rparr>"

text \<open>Rows with one column \<open>id\<close>, as \<open>dict(row)\<close> has them: column name and value.\<close>

definition row :: "int \<Rightarrow> (string \<times> int) list" where
  "row i = [(''id'', i)]"

definition five_rows :: "(string \<times> int) list list" where
  "five_rows = [row 1, row 2, row 3, row 4, row 5]"

definition big_table :: "(string \<times> int) list list" where
  "big_table = map (\<lambda>i. row (int i)) [1..<10002]"

section \<open>Properties\<close>

subsection \<open>Cutting a list into pieces\<close>

lemma chop_Nil [simp]: "chop n [] = []"
  by (simp add: chop.simps)

lemma chop_step: "0 < n \<Longrightarrow> xs \<noteq> [] \<Longrightarrow> chop n xs = take n xs # chop n (drop n xs)"
  by (subst chop.simps) simp

lemma chop_short: "0 < n \<Longrightarrow> xs \<noteq> [] \<Longrightarrow> length xs \<le> n \<Longrightarrow> chop n xs = [xs]"
  by (subst chop.simps) simp

lemma concat_chop: "0 < n \<Longrightarrow> concat (chop n xs) = xs"
proof (induction n xs rule: chop.induct)
  case (1 n xs)
  show ?case
  proof (cases "xs = []")
    case True then show ?thesis by simp
  next
    case False
    with 1 have "concat (chop n (drop n xs)) = drop n xs" by simp
    moreover have "chop n xs = take n xs # chop n (drop n xs)"
      using 1(2) False by (rule chop_step)
    ultimately show ?thesis by simp
  qed
qed

lemma length_chop: "0 < n \<Longrightarrow> length (chop n xs) = (length xs + n - 1) div n"
proof (induction n xs rule: chop.induct)
  case (1 n xs)
  show ?case
  proof (cases "xs = []")
    case True with 1 show ?thesis by simp
  next
    case False
    note ne = this
    show ?thesis
    proof (cases "length xs \<le> n")
      case True
      with ne 1 have "chop n xs = [xs]" by (simp add: chop_short)
      moreover have "0 < length xs" using ne by simp
      with True have "length xs + n - 1 = (length xs - 1) + n" "length xs - 1 < n"
        by arith+
      then have "(length xs + n - 1) div n = 1"
        using 1(2) by (simp only: div_add_self2) simp
      ultimately show ?thesis by simp
    next
      case False
      define m where "m = length (drop n xs) + n - 1"
      from False 1(2) have "length xs + n - 1 = m + n" unfolding m_def by simp
      moreover have "(m + n) div n = Suc (m div n)" using 1(2) by (simp add: div_add_self2)
      ultimately have a: "(length xs + n - 1) div n = Suc ((length (drop n xs) + n - 1) div n)"
        unfolding m_def by simp
      from 1 ne have b: "length (chop n (drop n xs)) = (length (drop n xs) + n - 1) div n"
        by simp
      have "chop n xs = take n xs # chop n (drop n xs)"
        using 1(2) ne by (rule chop_step)
      with a b show ?thesis by simp
    qed
  qed
qed

lemma nth_chop_length:
  "0 < n \<Longrightarrow> i < length xs div n \<Longrightarrow> length (chop n xs ! i) = n"
proof (induction n xs arbitrary: i rule: chop.induct)
  case (1 n xs)
  have ge: "n \<le> length xs"
  proof (rule ccontr)
    assume "\<not> n \<le> length xs"
    then have "length xs div n = 0" by simp
    with 1(3) show False by simp
  qed
  then have ne: "xs \<noteq> []" using 1(2) by auto
  have step: "chop n xs = take n xs # chop n (drop n xs)"
    using 1(2) ne by (rule chop_step)
  show ?case
  proof (cases i)
    case 0
    with ge step show ?thesis by simp
  next
    case (Suc j)
    from ge 1(2) have "length xs div n = Suc ((length xs - n) div n)"
      by (simp add: le_div_geq)
    with 1(3) Suc have "j < length (drop n xs) div n" by simp
    with 1(1)[of j] 1(2) ne have "length (chop n (drop n xs) ! j) = n" by simp
    with Suc step show ?thesis by simp
  qed
qed

lemma last_chop_length:
  "0 < n \<Longrightarrow> xs \<noteq> [] \<Longrightarrow>
   length (last (chop n xs)) = (if length xs mod n = 0 then n else length xs mod n)"
proof (induction n xs rule: chop.induct)
  case (1 n xs)
  show ?case
  proof (cases "length xs \<le> n")
    case True
    with 1 have "chop n xs = [xs]" by (simp add: chop_short)
    with True 1(2,3) show ?thesis by (cases "length xs = n") auto
  next
    case False
    then have dne: "drop n xs \<noteq> []" by simp
    have step: "chop n xs = take n xs # chop n (drop n xs)"
      using 1(2,3) by (rule chop_step)
    have "chop n (drop n xs) = take n (drop n xs) # chop n (drop n (drop n xs))"
      using 1(2) dne by (rule chop_step)
    then have cne: "chop n (drop n xs) \<noteq> []" by simp
    from False have m: "length xs mod n = length (drop n xs) mod n"
      by (simp add: le_mod_geq)
    from 1(1) 1(2,3) dne
    have "length (last (chop n (drop n xs))) =
      (if length (drop n xs) mod n = 0 then n else length (drop n xs) mod n)"
      by simp
    with step cne m show ?thesis by simp
  qed
qed

lemma chop_append_full:
  "ys \<noteq> [] \<Longrightarrow> chop (length ys) (ys @ zs) = ys # chop (length ys) zs"
  by (subst chop_step) simp_all

subsection \<open>The loop of the full dump\<close>

lemma width_pos: "0 < width cs"
  by (simp add: width_def)

lemma width_test: "0 < k \<Longrightarrow> (cs \<le> int k) = (width cs \<le> k)"
  by (auto simp: width_def max_def)

lemma for_rows_chop:
  "length chunk < width cs \<Longrightarrow>
   for_rows cs rows chunk k out e = (c', k', out', e') \<Longrightarrow>
   out' @ (if c' \<noteq> [] then [Array c'] else []) = out @ map Array (chop (width cs) (chunk @ rows))"
proof (induction rows arbitrary: chunk k out e)
  case Nil
  show ?case
  proof (cases "chunk = []")
    case True
    with Nil show ?thesis by simp
  next
    case False
    with Nil(1) have "chop (width cs) chunk = [chunk]"
      by (simp add: chop_short width_pos)
    with Nil(2) False show ?thesis by simp
  qed
next
  case (Cons row rest)
  let ?c1 = "chunk @ [row]"
  have t: "(cs \<le> int (length ?c1)) = (width cs \<le> length ?c1)"
    by (rule width_test) simp
  show ?case
  proof (cases "cs \<le> int (length ?c1)")
    case True
    with t Cons.prems(1) have len: "length ?c1 = width cs" by simp
    from True Cons.prems(2)
    have run: "for_rows cs rest [] (k + 1) (out @ [Array ?c1])
                 (generate_file_json ?c1 k ''chunks'' e) = (c', k', out', e')"
      by (simp add: Let_def)
    have "out' @ (if c' \<noteq> [] then [Array c'] else []) =
          (out @ [Array ?c1]) @ map Array (chop (width cs) ([] @ rest))"
      by (rule Cons.IH [OF _ run]) (simp add: width_pos)
    moreover have "chop (width cs) (?c1 @ rest) = ?c1 # chop (width cs) rest"
      unfolding len [symmetric] by (rule chop_append_full) simp
    ultimately show ?thesis by simp
  next
    case False
    with t have short: "length ?c1 < width cs" by simp
    from False Cons.prems(2)
    have run: "for_rows cs rest ?c1 k out e = (c', k', out', e')"
      by (simp add: Let_def)
    have "out' @ (if c' \<noteq> [] then [Array c'] else []) =
          out @ map Array (chop (width cs) (?c1 @ rest))"
      by (rule Cons.IH [OF short run])
    then show ?thesis by simp
  qed
qed

lemma lines_chop:
  "fst (get_large_data_chunks cs t e) = map Array (chop (width cs) (take 10000 t))"
proof -
  obtain c k out e1 where
    run: "for_rows cs (select_limit 10000 t) [] 1 [] (execute (Select_limit 10000) e) = (c, k, out, e1)"
    by (metis prod_cases4)
  have "out @ (if c \<noteq> [] then [Array c] else []) =
        [] @ map Array (chop (width cs) ([] @ select_limit 10000 t))"
    by (rule for_rows_chop [OF _ run]) (simp add: width_pos)
  with run show ?thesis
    by (cases "c = []") (simp_all add: get_large_data_chunks_def select_limit_def)
qed

lemma records_of_Array: "map records_of (map Array xss) = xss"
  by (induction xss) simp_all

lemma full_dump_rows:
  "concat (map records_of (fst (get_large_data_chunks cs t e))) = take 10000 t"
  by (simp only: lines_chop records_of_Array) (simp add: concat_chop width_pos)

subsection \<open>The full dump\<close>

text \<open>
  Claim C1. For a chunk size of at least one and a table of \<open>R \<le> 10000\<close> rows, the full
  dump yields \<open>ceil(R / chunk_size)\<close> lines, each a JSON array; the first
  \<open>floor(R / chunk_size)\<close> arrays hold \<open>chunk_size\<close> records each, the last one holds
  \<open>R mod chunk_size\<close> records (\<open>chunk_size\<close> when that is zero), and the arrays
  concatenated in the order of emission are the table: no row is lost or repeated.
\<close>

theorem full_dump_chunks:
  assumes "1 \<le> chunk_size" and "length t \<le> 10000"
  shows "fst (get_large_data_chunks chunk_size t e) =
           map Array (map records_of (fst (get_large_data_chunks chunk_size t e)))
       \<and> length (fst (get_large_data_chunks chunk_size t e)) =
           (length t + nat chunk_size - 1) div nat chunk_size
       \<and> (\<forall>i < length t div nat chunk_size.
             length (map records_of (fst (get_large_data_chunks chunk_size t e)) ! i) = nat chunk_size)
       \<and> (t \<noteq> [] \<longrightarrow>
             length (last (map records_of (fst (get_large_data_chunks chunk_size t e)))) =
               (if length t mod nat chunk_size = 0 then nat chunk_size
                else length t mod nat chunk_size))
       \<and> concat (map records_of (fst (get_large_data_chunks chunk_size t e))) = t"
proof -
  let ?n = "nat chunk_size"
  from assms(1) have n: "0 < ?n" and w: "width chunk_size = ?n"
    by (simp_all add: width_def)
  from assms(2) have lines: "fst (get_large_data_chunks chunk_size t e) = map Array (chop ?n t)"
    by (simp add: lines_chop w)
  have recs: "map records_of (fst (get_large_data_chunks chunk_size t e)) = chop ?n t"
    unfolding lines by (rule records_of_Array)
  have 1: "fst (get_large_data_chunks chunk_size t e) =
           map Array (map records_of (fst (get_large_data_chunks chunk_size t e)))"
    unfolding recs by (rule lines)
  have 2: "length (fst (get_large_data_chunks chunk_size t e)) = (length t + ?n - 1) div ?n"
    unfolding lines using n by (simp add: length_chop)
  have 3: "\<forall>i < length t div ?n.
             length (map records_of (fst (get_large_data_chunks chunk_size t e)) ! i) = ?n"
    unfolding recs using n by (simp add: nth_chop_length)
  have 4: "t \<noteq> [] \<longrightarrow>
             length (last (map records_of (fst (get_large_data_chunks chunk_size t e)))) =
               (if length t mod ?n = 0 then ?n else length t mod ?n)"
    unfolding recs using n by (simp add: last_chop_length)
  have 5: "concat (map records_of (fst (get_large_data_chunks chunk_size t e))) = t"
    unfolding recs using n by (simp add: concat_chop)
  from 1 2 3 4 5 show ?thesis by blast
qed

text \<open>Five rows in chunks of two: three lines, of two, two and one record.\<close>

theorem full_dump_chunks_witness:
  "length (fst (get_large_data_chunks 2 five_rows empty_env)) = 3
   \<and> map length (map records_of (fst (get_large_data_chunks 2 five_rows empty_env))) = [2, 2, 1]
   \<and> concat (map records_of (fst (get_large_data_chunks 2 five_rows empty_env))) = five_rows"
proof -
  have h1: "(1::int) \<le> 2" by simp
  have h2: "length five_rows \<le> 10000" by (simp add: five_rows_def)
  note th = full_dump_chunks [OF h1 h2, of empty_env]
  have a: "length (fst (get_large_data_chunks 2 five_rows empty_env)) = 3"
    using th by (simp add: five_rows_def)
  have c: "concat (map records_of (fst (get_large_data_chunks 2 five_rows empty_env))) = five_rows"
    using th by blast
  have b: "map length (map records_of (fst (get_large_data_chunks 2 five_rows empty_env))) = [2, 2, 1]"
    by (simp add: get_large_data_chunks_def five_rows_def select_limit_def Let_def)
  from a b c show ?thesis by blast
qed

text \<open>
  Claim C4. Whatever the size of the table, \<open>/bulk-data\<close> streams \<open>min R 10000\<close>
  records in all, so never more than the fixed bound of its query.
\<close>

theorem full_dump_capped:
  "length (concat (map records_of (fst (get_bulk_data t e)))) = min (length t) 10000"
  by (simp add: get_bulk_data_def full_dump_rows min.commute)

subsection \<open>The count\<close>

lemma length_big_table: "length big_table = 10001"
  by (simp add: big_table_def)

text \<open>
  Claim C5. \<open>/count-records\<close> answers with the number of rows of the table, whatever
  that number is (the bound of the full dump plays no part), by one scalar query; for
  the table of 10001 rows the answer is 10001.
\<close>

theorem count_records_total:
  "fst (count_records t e) = [(''total_records'', int (length t))]
   \<and> snd (count_records t e) = execute Select_count e
   \<and> fst (count_records big_table e') = [(''total_records'', 10001)]"
  by (simp add: count_records_def select_count_def length_big_table)

subsection \<open>Determinism\<close>


subsection \<open>The paginated export\<close>






text \<open>
  Claim C6. A request to \<open>/bulk-data-paginated\<close> with \<open>page < 1\<close> or \<open>chunk_size < 1\<close>
  is answered by the 400 error with the message "Page and chunk_size must be greater
  than 0", and the environment is left as it was: no statement is run, no file written.
\<close>

theorem invalid_request_rejected:
  assumes "page < 1 \<or> chunk_size < 1"
  shows "get_bulk_data_paginated page chunk_size t e =
           (Inl (HTTPException 400 ''Page and chunk_size must be greater than 0''), e)"
  using assms by (simp add: get_bulk_data_paginated_def)

text \<open>Page 0, and a negative chunk size.\<close>

theorem invalid_request_rejected_witness:
  "get_bulk_data_paginated 0 100 five_rows empty_env =
     (Inl (HTTPException 400 ''Page and chunk_size must be greater than 0''), empty_env)
   \<and> get_bulk_data_paginated 1 (- 5) five_rows empty_env =
     (Inl (HTTPException 400 ''Page and chunk_size must be greater than 0''), empty_env)"
proof -
  have h1: "(0::int) < 1 \<or> (100::int) < 1" by simp
  have h2: "(1::int) < 1 \<or> (- 5::int) < 1" by simp
  from invalid_request_rejected [OF h1, of five_rows empty_env]
       invalid_request_rejected [OF h2, of five_rows empty_env]
  show ?thesis by blast
qed






subsection \<open>Files of the full dump\<close>

text \<open>
  Claim C2 says that every streamed chunk of the full dump has its file
  \<open>part_i.json\<close>. The source calls the file writer inside the loop only; the chunk
  left in the buffer when the rows run out is yielded and not written. Five rows in
  chunks of two give three lines and two files; one row through \<open>/bulk-data\<close> gives
  one line and no file.
\<close>

theorem full_dump_last_chunk_not_persisted:
  "fst (get_large_data_chunks 2 five_rows empty_env) =
     [Array [row 1, row 2], Array [row 3, row 4], Array [row 5]]
   \<and> files (snd (get_large_data_chunks 2 five_rows empty_env)) =
     [''chunks/part_1.json'' \<mapsto> [row 1, row 2], ''chunks/part_2.json'' \<mapsto> [row 3, row 4]]
   \<and> files (snd (get_large_data_chunks 2 five_rows empty_env)) ''chunks/part_3.json'' = None
   \<and> fst (get_bulk_data [row 1] empty_env) = [Array [row 1]]
   \<and> files (snd (get_bulk_data [row 1] empty_env)) = Map.empty"
  by (simp add: get_bulk_data_def get_large_data_chunks_def five_rows_def select_limit_def
        generate_file_json_def execute_def empty_env_def path_join_def part_name_def
        str.simps digit_def Let_def)


end
